theory Spec2Isabelle
  imports
    Main
    "HOL-Library.Word"
    "HOL-Library.Char_ord"
    "HOL-Library.List_Lexorder"
begin

unbundle bit_operations_syntax

section \<open>Data model of core.go\<close>

text \<open>
  A Go \<^verbatim>\<open>error\<close> is an opaque value; \<^verbatim>\<open>nil\<close> is the absence of one, so a returned
  \<^verbatim>\<open>error\<close> is an \<open>error option\<close> and a returned pair \<^verbatim>\<open>(x, err)\<close> whose \<^verbatim>\<open>err\<close> is
  tested first is a sum \<open>error + 'a\<close>.
\<close>

datatype error = Err string

text \<open>
  \<^verbatim>\<open>uuid.UUID\<close> is a \<^verbatim>\<open>[16]byte\<close>; \<^verbatim>\<open>[]byte\<close> payloads are byte lists (a nil slice and an
  empty one are both \<open>[]\<close>: the code never tells them apart). \<^verbatim>\<open>int64\<close> is a 64-bit word
  read as two's complement, and so is \<^verbatim>\<open>int\<close> (its width on 64-bit platforms).
\<close>

type_synonym uuid = "8 word list"
type_synonym bytes = "8 word list"
type_synonym int64 = "64 word"

record Value =
  Version :: int64
  ModifiedBy :: uuid
  ModifiedAt :: int64
  Deleted :: bool
  Content :: bytes

text \<open>
  \<^verbatim>\<open>ReceiveRemote\<close> takes a \<^verbatim>\<open>*Delta\<close> and a \<^verbatim>\<open>Delta\<close> holds a \<^verbatim>\<open>*Value\<close>; the model takes
  deltas and values whose pointers are not nil (with a nil one \<^verbatim>\<open>handleReceive\<close>
  dereferences nil and panics). The field \<^verbatim>\<open>Value\<close> of \<^verbatim>\<open>Delta\<close> is \<open>Value_d\<close> here and the
  field \<^verbatim>\<open>Value\<close> of \<^verbatim>\<open>GetResult\<close> is \<open>Value_r\<close>.
\<close>

record Delta =
  Key :: string
  Value_d :: Value

record GetResult =
  HasValue :: bool
  Value_r :: bytes

record TryGet =
  Result :: GetResult
  Error :: "error option"

text \<open>
  The \<^verbatim>\<open>Storage\<close> interface. A backend is a mutable object behind the interface value:
  here its state is a value of type \<open>'s\<close>, and every method takes the state and returns
  its result with the state it leaves behind, so that a method of a backend may fail and
  may write as it likes.
\<close>

record 's Storage =
  Storage_Get :: "'s \<Rightarrow> string \<Rightarrow> (error + Value option) \<times> 's"
  Storage_Set :: "'s \<Rightarrow> string \<Rightarrow> Value \<Rightarrow> error option \<times> 's"
  Storage_Delete :: "'s \<Rightarrow> string \<Rightarrow> error option \<times> 's"
  Storage_GetNodeID :: "'s \<Rightarrow> (error + uuid) \<times> 's"

text \<open>
  \<^verbatim>\<open>Database\<close>: the backend's method table and the cached node identity. The channel
  \<^verbatim>\<open>msgChan\<close> is the list of messages that \<open>dbMessageLoop\<close> consumes below.
\<close>

record 's Database =
  storage :: "'s Storage"
  nodeID :: uuid

definition NewDatabase :: "'s Storage \<Rightarrow> 's \<Rightarrow> (error + 's Database) \<times> 's" where
  "NewDatabase st s =
     (case Storage_GetNodeID st s of
        (Inl err, s1) \<Rightarrow> (Inl err, s1)
      | (Inr nid, s1) \<Rightarrow> (Inr \<lparr>storage = st, nodeID = nid\<rparr>, s1))"

subsection \<open>The string form of a node identity\<close>

text \<open>
  Modelled from the spec: the identity's "lexicographic string form", which the code gets
  from \<^verbatim>\<open>uuid.UUID.String\<close> of the package github.com/google/uuid (an external
  dependency, not under src/): the 36 characters
  \<^verbatim>\<open>xxxxxxxx-xxxx-xxxx-xxxx-xxxxxxxxxxxx\<close> of lower-case hexadecimal digits, two per
  byte, in the order of the bytes. Go compares strings byte by byte, a proper prefix
  being smaller: the order of \<open>char list\<close>.
\<close>

definition hexDigit :: "nat \<Rightarrow> char" where
  "hexDigit n = ''0123456789abcdef'' ! n"

definition hexByte :: "8 word \<Rightarrow> string" where
  "hexByte b = [hexDigit (unat (drop_bit 4 b)), hexDigit (unat (b AND 15))]"

definition encodeHex :: "8 word list \<Rightarrow> string" where
  "encodeHex bs = concat (map hexByte bs)"

definition uuid_String :: "uuid \<Rightarrow> string" where
  "uuid_String u =
     encodeHex (take 4 u) @ ''-'' @ encodeHex (take 2 (drop 4 u)) @ ''-'' @
     encodeHex (take 2 (drop 6 u)) @ ''-'' @ encodeHex (take 2 (drop 8 u)) @ ''-'' @
     encodeHex (take 6 (drop 10 u))"

subsection \<open>newValue and handleReceive\<close>

text \<open>
  \<^verbatim>\<open>newValue\<close> reads the clock with \<^verbatim>\<open>time.Now().Unix()\<close>; the reading is the argument
  \<open>now\<close>. \<^verbatim>\<open>value.Version + 1\<close> is Go's wrapping addition.
\<close>

definition newValue ::
  "'s Database \<Rightarrow> 's \<Rightarrow> int64 \<Rightarrow> string \<Rightarrow> bytes \<Rightarrow> bool \<Rightarrow> (error + Value) \<times> 's" where
  "newValue d s now key bs deleted =
     (case Storage_Get (storage d) s key of
        (Inl err, s1) \<Rightarrow> (Inl err, s1)
      | (Inr value, s1) \<Rightarrow>
          (let version = (case value of None \<Rightarrow> 1 | Some v \<Rightarrow> Version v + 1)
           in (Inr \<lparr>Version = version, ModifiedBy = nodeID d, ModifiedAt = now,
                    Deleted = deleted, Content = bs\<rparr>, s1)))"

definition existingIsConflictWinner :: "Value \<Rightarrow> Value \<Rightarrow> bool" where
  "existingIsConflictWinner existing new =
     (if ModifiedAt existing = ModifiedAt new
      then uuid_String (ModifiedBy existing) < uuid_String (ModifiedBy new)
      else ModifiedAt new <s ModifiedAt existing)"

definition handleReceive :: "'s Database \<Rightarrow> 's \<Rightarrow> Delta \<Rightarrow> error option \<times> 's" where
  "handleReceive d s delta =
     (case Storage_Get (storage d) s (Key delta) of
        (Inl err, s1) \<Rightarrow> (Some err, s1)
      | (Inr existing, s1) \<Rightarrow>
          (case existing of
             None \<Rightarrow> Storage_Set (storage d) s1 (Key delta) (Value_d delta)
           | Some ex \<Rightarrow>
               if existingIsConflictWinner ex (Value_d delta)
               then Storage_Set (storage d) s1 (Key delta) (Value_d delta)
               else (None, s1)))"

subsection \<open>The message loop\<close>

text \<open>
  \<^verbatim>\<open>dbMessage\<close> is a tagged struct built only by the five \<^verbatim>\<open>new...Message\<close> functions;
  the reply channel each request carries is the reply the turn returns.
\<close>

datatype dbMessage =
    ReceiveMessage Delta
  | SetMessage string bytes
  | GetMessage string
  | DeleteMessage string
  | CloseMessage

datatype reply = ErrorReply "error option" | GetReply TryGet

definition dbMessageLoop_receive :: "'s Database \<Rightarrow> 's \<Rightarrow> Delta \<Rightarrow> error option \<times> 's" where
  "dbMessageLoop_receive db s delta = handleReceive db s delta"

definition dbMessageLoop_set ::
  "'s Database \<Rightarrow> 's \<Rightarrow> int64 \<Rightarrow> string \<Rightarrow> bytes \<Rightarrow> error option \<times> 's" where
  "dbMessageLoop_set db s now key bs =
     (case newValue db s now key bs False of
        (Inl err, s1) \<Rightarrow> (Some err, s1)
      | (Inr v, s1) \<Rightarrow> Storage_Set (storage db) s1 key v)"

definition dbMessageLoop_get :: "'s Database \<Rightarrow> 's \<Rightarrow> string \<Rightarrow> TryGet \<times> 's" where
  "dbMessageLoop_get db s key =
     (case Storage_Get (storage db) s key of
        (Inl err, s1) \<Rightarrow>
          (\<lparr>Result = \<lparr>HasValue = False, Value_r = []\<rparr>, Error = Some err\<rparr>, s1)
      | (Inr value, s1) \<Rightarrow>
          (case value of
             None \<Rightarrow> (\<lparr>Result = \<lparr>HasValue = False, Value_r = []\<rparr>, Error = None\<rparr>, s1)
           | Some v \<Rightarrow>
               if Deleted v
               then (\<lparr>Result = \<lparr>HasValue = False, Value_r = []\<rparr>, Error = None\<rparr>, s1)
               else (\<lparr>Result = \<lparr>HasValue = True, Value_r = Content v\<rparr>, Error = None\<rparr>, s1)))"

definition dbMessageLoop_delete ::
  "'s Database \<Rightarrow> 's \<Rightarrow> int64 \<Rightarrow> string \<Rightarrow> error option \<times> 's" where
  "dbMessageLoop_delete db s now key =
     (case newValue db s now key [] True of
        (Inl err, s1) \<Rightarrow> (Some err, s1)
      | (Inr v, s1) \<Rightarrow> Storage_Set (storage db) s1 key v)"

text \<open>
  One iteration of the \<^verbatim>\<open>for\<close> loop, after the receive from the channel: the
  \<^verbatim>\<open>switch\<close>. It returns the replies sent in the turn and the backend's state. In the
  \<^verbatim>\<open>default\<close> case the \<^verbatim>\<open>break\<close> leaves the \<^verbatim>\<open>switch\<close> (in Go a \<^verbatim>\<open>break\<close> ends the innermost
  \<^verbatim>\<open>for\<close>, \<^verbatim>\<open>switch\<close> or \<^verbatim>\<open>select\<close>), no reply is sent, and the loop goes on to its next
  receive.
\<close>

definition dbMessageLoop_turn ::
  "'s Database \<Rightarrow> 's \<Rightarrow> int64 \<Rightarrow> dbMessage \<Rightarrow> reply list \<times> 's" where
  "dbMessageLoop_turn db s now msg =
     (case msg of
        ReceiveMessage delta \<Rightarrow>
          (case dbMessageLoop_receive db s delta of (e, s1) \<Rightarrow> ([ErrorReply e], s1))
      | SetMessage key bs \<Rightarrow>
          (case dbMessageLoop_set db s now key bs of (e, s1) \<Rightarrow> ([ErrorReply e], s1))
      | GetMessage key \<Rightarrow>
          (case dbMessageLoop_get db s key of (r, s1) \<Rightarrow> ([GetReply r], s1))
      | DeleteMessage key \<Rightarrow>
          (case dbMessageLoop_delete db s now key of (e, s1) \<Rightarrow> ([ErrorReply e], s1))
      | CloseMessage \<Rightarrow> ([], s))"

text \<open>
  The loop on the messages that arrive on the channel, in their order. \<open>clock i\<close> is what
  \<^verbatim>\<open>time.Now().Unix()\<close> returns during iteration \<open>i\<close>. The loop has no exit: when the
  messages are used up it waits on the channel, and what it has done by then is the
  replies it sent and the state it left.
\<close>

fun dbMessageLoop ::
  "'s Database \<Rightarrow> (nat \<Rightarrow> int64) \<Rightarrow> nat \<Rightarrow> 's \<Rightarrow> dbMessage list \<Rightarrow> reply list \<times> 's" where
  "dbMessageLoop db clock i s [] = ([], s)"
| "dbMessageLoop db clock i s (msg # rest) =
     (case dbMessageLoop_turn db s (clock i) msg of
        (rs, s1) \<Rightarrow>
          (case dbMessageLoop db clock (Suc i) s1 rest of
             (rs', s2) \<Rightarrow> (rs @ rs', s2)))"

section \<open>The in-memory backend of memory.go\<close>

record MemoryStorage =
  data :: "string \<rightharpoonup> Value"
  nodeID_m :: uuid

definition MemoryStorage_Get ::
  "MemoryStorage \<Rightarrow> string \<Rightarrow> (error + Value option) \<times> MemoryStorage" where
  "MemoryStorage_Get m key =
     (case data m key of None \<Rightarrow> (Inr None, m) | Some val \<Rightarrow> (Inr (Some val), m))"

definition MemoryStorage_Set ::
  "MemoryStorage \<Rightarrow> string \<Rightarrow> Value \<Rightarrow> error option \<times> MemoryStorage" where
  "MemoryStorage_Set m key v = (None, m\<lparr>data := (data m)(key \<mapsto> v)\<rparr>)"

definition MemoryStorage_Delete ::
  "MemoryStorage \<Rightarrow> string \<Rightarrow> error option \<times> MemoryStorage" where
  "MemoryStorage_Delete m key = (None, m\<lparr>data := (data m)(key := None)\<rparr>)"

definition MemoryStorage_GetNodeID :: "MemoryStorage \<Rightarrow> (error + uuid) \<times> MemoryStorage" where
  "MemoryStorage_GetNodeID m = (Inr (nodeID_m m), m)"

text \<open>\<^verbatim>\<open>*MemoryStorage\<close> as a \<^verbatim>\<open>Storage\<close>: its method table.\<close>

definition memoryStorage :: "MemoryStorage Storage" where
  "memoryStorage =
     \<lparr>Storage_Get = MemoryStorage_Get, Storage_Set = MemoryStorage_Set,
      Storage_Delete = MemoryStorage_Delete, Storage_GetNodeID = MemoryStorage_GetNodeID\<rparr>"

text \<open>
  \<^verbatim>\<open>NewMemoryStorage\<close> and \<^verbatim>\<open>NewMemoryDatabase\<close>; \<open>rnd\<close> is what \<^verbatim>\<open>uuid.NewRandom()\<close>
  returns.
\<close>

definition NewMemoryStorage :: "error + uuid \<Rightarrow> error + MemoryStorage" where
  "NewMemoryStorage rnd =
     (case rnd of
        Inl err \<Rightarrow> Inl err
      | Inr nid \<Rightarrow> Inr \<lparr>data = Map.empty, nodeID_m = nid\<rparr>)"

definition NewMemoryDatabase ::
  "error + uuid \<Rightarrow> error + (MemoryStorage Database \<times> MemoryStorage)" where
  "NewMemoryDatabase rnd =
     (case NewMemoryStorage rnd of
        Inl err \<Rightarrow> Inl err
      | Inr m \<Rightarrow>
          (case NewDatabase memoryStorage m of
             (Inl err, m1) \<Rightarrow> Inl err
           | (Inr db, m1) \<Rightarrow> Inr (db, m1)))"

section \<open>Conflict resolution as a function of the stored value\<close>

text \<open>
  \<open>resolve cur new\<close> is the value a key holds after \<open>handleReceive\<close> on the in-memory
  backend, when the key held \<open>cur\<close> and the delta carries \<open>new\<close>, and \<open>applyDelta\<close> is
  the map the backend holds then (lemma \<open>handleReceive_memory\<close>); \<open>resolveAll\<close> runs
  \<open>resolve\<close> over the values of several deltas in their order.
\<close>

definition resolve :: "Value option \<Rightarrow> Value \<Rightarrow> Value" where
  "resolve cur new =
     (case cur of
        None \<Rightarrow> new
      | Some ex \<Rightarrow> if existingIsConflictWinner ex new then new else ex)"

definition applyDelta :: "(string \<rightharpoonup> Value) \<Rightarrow> Delta \<Rightarrow> (string \<rightharpoonup> Value)" where
  "applyDelta f d = f(Key d \<mapsto> resolve (f (Key d)) (Value_d d))"

fun resolveAll :: "Value option \<Rightarrow> Value list \<Rightarrow> Value option" where
  "resolveAll cur [] = cur"
| "resolveAll cur (v # vs) = resolveAll (Some (resolve cur v)) vs"


section \<open>The comparison of existingIsConflictWinner is a strict order\<close>

lemma winner_irrefl: "\<not> existingIsConflictWinner v v"
  by (simp add: existingIsConflictWinner_def)

lemma winner_trans:
  "existingIsConflictWinner a b \<Longrightarrow> existingIsConflictWinner b c \<Longrightarrow> existingIsConflictWinner a c"
  by (auto simp: existingIsConflictWinner_def word_sless_alt split: if_splits)

lemma winner_asym: "existingIsConflictWinner a b \<Longrightarrow> \<not> existingIsConflictWinner b a"
  using winner_trans winner_irrefl by blast

lemma winner_total:
  assumes "\<not> existingIsConflictWinner a b" and "\<not> existingIsConflictWinner b a"
  shows "ModifiedAt a = ModifiedAt b \<and> uuid_String (ModifiedBy a) = uuid_String (ModifiedBy b)"
proof (cases "ModifiedAt a = ModifiedAt b")
  case True
  with assms show ?thesis by (auto simp: existingIsConflictWinner_def)
next
  case False
  with assms have "\<not> sint (ModifiedAt b) < sint (ModifiedAt a)" "\<not> sint (ModifiedAt a) < sint (ModifiedAt b)"
    by (auto simp: existingIsConflictWinner_def word_sless_alt)
  then have "sint (ModifiedAt a) = sint (ModifiedAt b)" by simp
  with False show ?thesis using signed_word_eqI by blast
qed

lemma handleReceive_memory:
  "handleReceive \<lparr>storage = memoryStorage, nodeID = n\<rparr> m delta =
     (None, m\<lparr>data := applyDelta (data m) delta\<rparr>)"
proof (cases "data m (Key delta)")
  case None
  then show ?thesis
    by (simp add: handleReceive_def memoryStorage_def MemoryStorage_Get_def
        MemoryStorage_Set_def resolve_def applyDelta_def)
next
  case (Some ex)
  then have "(data m)(Key delta \<mapsto> ex) = data m" by (simp add: fun_upd_idem)
  with Some show ?thesis
    by (simp add: handleReceive_def memoryStorage_def MemoryStorage_Get_def
        MemoryStorage_Set_def resolve_def applyDelta_def)
qed

lemma resolveAll_Some: "vs \<noteq> [] \<or> cur \<noteq> None \<Longrightarrow> \<exists>r. resolveAll cur vs = Some r"
  by (induction vs arbitrary: cur) auto

text \<open>
  What a run of deltas leaves: one of the values, which none of them would replace, and
  which replaced the value the key held at the start unless it is that value.
\<close>

lemma resolveAll_final:
  assumes "resolveAll cur vs = Some r"
  shows "(r \<in> set vs \<or> cur = Some r) \<and> (\<forall>v \<in> set vs. \<not> existingIsConflictWinner r v) \<and>
         (\<forall>e. cur = Some e \<longrightarrow> r = e \<or> existingIsConflictWinner e r)"
  using assms
proof (induction vs arbitrary: cur)
  case Nil
  then show ?case by simp
next
  case (Cons v vs)
  let ?c = "resolve cur v"
  from Cons.prems have run: "resolveAll (Some ?c) vs = Some r" by simp
  note ih = Cons.IH [OF run]
  have c_cases: "?c = v \<or> (cur = Some ?c \<and> \<not> existingIsConflictWinner ?c v)"
    by (auto simp: resolve_def split: option.splits)
  have c_from: "\<forall>e. cur = Some e \<longrightarrow> ?c = e \<or> (?c = v \<and> existingIsConflictWinner e v)"
    by (auto simp: resolve_def)
  from ih have step: "r = ?c \<or> existingIsConflictWinner ?c r" by simp
  have mem: "r \<in> set (v # vs) \<or> cur = Some r"
    using ih c_cases by auto
  have notv: "\<not> existingIsConflictWinner r v"
    using step c_cases winner_irrefl winner_asym winner_trans by metis
  have from_cur: "\<forall>e. cur = Some e \<longrightarrow> r = e \<or> existingIsConflictWinner e r"
    using step c_from winner_trans by metis
  from mem notv from_cur ih show ?case by simp
qed


lemma resolveAll_unique:
  assumes sets: "set vs = set ws"
    and inj: "\<forall>a \<in> set vs. \<forall>b \<in> set vs.
        ModifiedAt a = ModifiedAt b \<and> uuid_String (ModifiedBy a) = uuid_String (ModifiedBy b)
        \<longrightarrow> a = b"
  shows "resolveAll cur vs = resolveAll cur ws"
proof (cases "vs = []")
  case True
  with sets show ?thesis by simp
next
  case False
  with sets have "ws \<noteq> []" by auto
  with False obtain r1 r2 where r1: "resolveAll cur vs = Some r1" and r2: "resolveAll cur ws = Some r2"
    using resolveAll_Some by blast
  note f1 = resolveAll_final [OF r1] and f2 = resolveAll_final [OF r2]
  have "r1 = r2"
  proof (cases "r1 \<in> set vs \<and> r2 \<in> set vs")
    case True
    then have "\<not> existingIsConflictWinner r1 r2" "\<not> existingIsConflictWinner r2 r1"
      using f1 f2 sets by auto
    then have "ModifiedAt r1 = ModifiedAt r2 \<and>
        uuid_String (ModifiedBy r1) = uuid_String (ModifiedBy r2)"
      by (rule winner_total)
    with True inj show ?thesis by blast
  next
    case False
    then consider "cur = Some r1" "r2 \<in> set vs" | "cur = Some r2" "r1 \<in> set vs"
      | "cur = Some r1" "cur = Some r2"
      using f1 f2 sets by auto
    then show ?thesis
    proof cases
      case 1
      then show ?thesis using f1 f2 by blast
    next
      case 2
      then show ?thesis using f1 f2 sets by blast
    next
      case 3
      then show ?thesis by simp
    qed
  qed
  with r1 r2 show ?thesis by simp
qed

section \<open>The string form determines the identity\<close>

lemma hexDigit_inj: "m < 16 \<Longrightarrow> n < 16 \<Longrightarrow> hexDigit m = hexDigit n \<Longrightarrow> m = n"
proof -
  assume m: "m < 16" and n: "n < 16" and eq: "hexDigit m = hexDigit n"
  have d: "distinct ''0123456789abcdef''" by simp
  have l: "length ''0123456789abcdef'' = 16" by simp
  from m n l have "m < length ''0123456789abcdef''" "n < length ''0123456789abcdef''"
    by simp_all
  with eq show "m = n"
    unfolding hexDigit_def using d by (simp only: nth_eq_iff_index_eq)
qed

lemma hi_nibble_bound: "unat (drop_bit 4 (b :: 8 word)) < 16"
proof -
  have "unat (drop_bit 4 b) = unat b div 16" by (simp add: drop_bit_eq_div unat_div)
  moreover have "unat b < 256" using unsigned_less [of b] by simp
  ultimately show ?thesis by simp
qed

lemma lo_nibble_bound: "unat ((b :: 8 word) AND 15) < 16"
proof -
  have "b AND 15 \<le> 15" by (rule word_and_le1)
  then have "unat (b AND 15) \<le> unat (15 :: 8 word)" by (simp only: word_le_nat_alt)
  then show ?thesis by simp
qed

lemma hexByte_inj: "hexByte a = hexByte b \<Longrightarrow> a = b"
proof -
  assume "hexByte a = hexByte b"
  then have h: "hexDigit (unat (drop_bit 4 a)) = hexDigit (unat (drop_bit 4 b))"
    and l: "hexDigit (unat (a AND 15)) = hexDigit (unat (b AND 15))"
    by (simp_all add: hexByte_def)
  have "unat (drop_bit 4 a) = unat (drop_bit 4 b)"
    using hexDigit_inj [OF hi_nibble_bound hi_nibble_bound h] .
  then have hi: "drop_bit 4 a = drop_bit 4 b" by (rule unsigned_word_eqI)
  have "unat (a AND 15) = unat (b AND 15)"
    using hexDigit_inj [OF lo_nibble_bound lo_nibble_bound l] .
  then have "a AND 15 = b AND 15" by (rule unsigned_word_eqI)
  then have lo: "take_bit 4 a = take_bit 4 b"
    by (simp add: take_bit_eq_mask mask_eq_exp_minus_1)
  have "a = push_bit 4 (drop_bit 4 a) + take_bit 4 a" by (simp add: bits_ident)
  also have "\<dots> = push_bit 4 (drop_bit 4 b) + take_bit 4 b" using hi lo by simp
  also have "\<dots> = b" by (simp add: bits_ident)
  finally show "a = b" .
qed

lemma length_hexByte: "length (hexByte b) = 2"
  by (simp add: hexByte_def)

lemma length_encodeHex: "length (encodeHex bs) = 2 * length bs"
  by (induction bs) (simp_all add: encodeHex_def length_hexByte)

lemma encodeHex_inj: "length xs = length ys \<Longrightarrow> encodeHex xs = encodeHex ys \<Longrightarrow> xs = ys"
proof (induction xs ys rule: list_induct2)
  case Nil
  then show ?case by simp
next
  case (Cons x xs y ys)
  from Cons.prems have "hexByte x @ encodeHex xs = hexByte y @ encodeHex ys"
    by (simp add: encodeHex_def)
  then have "hexByte x = hexByte y \<and> encodeHex xs = encodeHex ys"
    by (simp add: length_hexByte)
  then show ?case using Cons.IH hexByte_inj by simp
qed

lemma uuid_String_inj:
  assumes "length u = 16" and "length v = 16" and eq: "uuid_String u = uuid_String v"
  shows "u = v"
proof -
  from eq assms have
    "encodeHex (take 4 u) = encodeHex (take 4 v)"
    "encodeHex (take 2 (drop 4 u)) = encodeHex (take 2 (drop 4 v))"
    "encodeHex (take 2 (drop 6 u)) = encodeHex (take 2 (drop 6 v))"
    "encodeHex (take 2 (drop 8 u)) = encodeHex (take 2 (drop 8 v))"
    "encodeHex (take 6 (drop 10 u)) = encodeHex (take 6 (drop 10 v))"
    by (simp_all add: uuid_String_def length_encodeHex)
  with assms have p:
    "take 4 u = take 4 v"
    "take 2 (drop 4 u) = take 2 (drop 4 v)"
    "take 2 (drop 6 u) = take 2 (drop 6 v)"
    "take 2 (drop 8 u) = take 2 (drop 8 v)"
    "take 6 (drop 10 u) = take 6 (drop 10 v)"
    by (simp_all add: encodeHex_inj)
  have split: "w = take 4 w @ take 2 (drop 4 w) @ take 2 (drop 6 w) @ take 2 (drop 8 w) @
      take 6 (drop 10 w)" if "length w = 16" for w :: uuid
  proof -
    have "take 16 w = take 4 w @ take 2 (drop 4 w) @ take 2 (drop 6 w) @ take 2 (drop 8 w) @
      take 6 (drop 10 w)"
      using take_add [of 4 12 w] take_add [of 2 10 "drop 4 w"] take_add [of 2 8 "drop 6 w"]
        take_add [of 2 6 "drop 8 w"]
      by simp
    with that show ?thesis by simp
  qed
  have "u = take 4 u @ take 2 (drop 4 u) @ take 2 (drop 6 u) @ take 2 (drop 8 u) @
      take 6 (drop 10 u)"
    using split [OF assms(1)] .
  also have "\<dots> = take 4 v @ take 2 (drop 4 v) @ take 2 (drop 6 v) @ take 2 (drop 8 v) @
      take 6 (drop 10 v)"
    by (simp only: p)
  also have "\<dots> = v" using split [OF assms(2)] by simp
  finally show ?thesis .
qed


section \<open>Deltas received by the in-memory backend\<close>

lemma turn_receive_memory:
  "dbMessageLoop_turn \<lparr>storage = memoryStorage, nodeID = n\<rparr> m now (ReceiveMessage d) =
     ([ErrorReply None], m\<lparr>data := applyDelta (data m) d\<rparr>)"
  by (simp add: dbMessageLoop_turn_def dbMessageLoop_receive_def handleReceive_memory)

lemma loop_receive_memory:
  "dbMessageLoop \<lparr>storage = memoryStorage, nodeID = n\<rparr> clock i m (map ReceiveMessage xs) =
     (map (\<lambda>d. ErrorReply None) xs, m\<lparr>data := foldl applyDelta (data m) xs\<rparr>)"
proof (induction xs arbitrary: i m)
  case Nil
  then show ?case by simp
next
  case (Cons d xs)
  show ?case
    by (simp add: turn_receive_memory Cons.IH)
qed

lemma foldl_applyDelta_key:
  "foldl applyDelta f xs k = resolveAll (f k) (map Value_d (filter (\<lambda>d. Key d = k) xs))"
  by (induction xs arbitrary: f) (simp_all add: applyDelta_def)


lemma values_of_key:
  "a \<in> set (map Value_d (filter (\<lambda>d. Key d = k) xs)) \<longleftrightarrow>
     (\<exists>d \<in> set xs. Key d = k \<and> Value_d d = a)"
  by auto

lemma receive_order_irrelevant:
  assumes sets: "set xs = set ys"
    and wf: "\<forall>d \<in> set xs. Key d = k \<longrightarrow> length (ModifiedBy (Value_d d)) = 16"
    and differ: "\<forall>d \<in> set xs. \<forall>d' \<in> set xs.
        Key d = k \<and> Key d' = k \<and> ModifiedAt (Value_d d) = ModifiedAt (Value_d d') \<and>
        ModifiedBy (Value_d d) = ModifiedBy (Value_d d') \<longrightarrow> d = d'"
  shows "foldl applyDelta f xs k = foldl applyDelta f ys k"
proof -
  let ?vs = "map Value_d (filter (\<lambda>d. Key d = k) xs)"
  let ?ws = "map Value_d (filter (\<lambda>d. Key d = k) ys)"
  have s: "set ?vs = set ?ws" using sets by simp
  have inj: "\<forall>a \<in> set ?vs. \<forall>b \<in> set ?vs.
      ModifiedAt a = ModifiedAt b \<and> uuid_String (ModifiedBy a) = uuid_String (ModifiedBy b)
      \<longrightarrow> a = b"
  proof (intro ballI impI)
    fix a b
    assume a: "a \<in> set ?vs" and b: "b \<in> set ?vs"
      and eq: "ModifiedAt a = ModifiedAt b \<and>
        uuid_String (ModifiedBy a) = uuid_String (ModifiedBy b)"
    from a obtain d where d: "d \<in> set xs" "Key d = k" "Value_d d = a"
      unfolding values_of_key by blast
    from b obtain d' where d': "d' \<in> set xs" "Key d' = k" "Value_d d' = b"
      unfolding values_of_key by blast
    from wf d have la: "length (ModifiedBy a) = 16" by blast
    from wf d' have lb: "length (ModifiedBy b) = 16" by blast
    from eq have "ModifiedBy a = ModifiedBy b" using uuid_String_inj [OF la lb] by simp
    with eq d d' have "Key d = k \<and> Key d' = k \<and>
        ModifiedAt (Value_d d) = ModifiedAt (Value_d d') \<and>
        ModifiedBy (Value_d d) = ModifiedBy (Value_d d')" by simp
    with differ d(1) d'(1) have "d = d'" by blast
    with d(3) d'(3) show "a = b" by simp
  qed
  show ?thesis
    unfolding foldl_applyDelta_key using resolveAll_unique [OF s inj] .
qed

lemma resolve_idem: "resolve (Some (resolve cur v)) v = resolve cur v"
  by (auto simp: resolve_def winner_irrefl split: option.splits)

lemma applyDelta_idem: "applyDelta (applyDelta f d) d = applyDelta f d"
  by (simp add: applyDelta_def resolve_idem)

section \<open>Facts about the handlers\<close>

lemmas memory_simps =
  memoryStorage_def MemoryStorage_Get_def MemoryStorage_Set_def

lemmas loop_simps =
  dbMessageLoop_turn_def dbMessageLoop_receive_def dbMessageLoop_set_def
  dbMessageLoop_get_def dbMessageLoop_delete_def newValue_def handleReceive_def






lemma newValue_cases:
  "newValue db s now key bs del =
     (case Storage_Get (storage db) s key of
        (Inl err, s1) \<Rightarrow> (Inl err, s1)
      | (Inr cur, s1) \<Rightarrow>
          (Inr \<lparr>Version = (case cur of None \<Rightarrow> 1 | Some v \<Rightarrow> Version v + 1),
                ModifiedBy = nodeID db, ModifiedAt = now, Deleted = del, Content = bs\<rparr>, s1))"
  by (simp add: newValue_def split: prod.splits sum.splits)

lemma NewMemoryDatabase_Inr:
  "NewMemoryDatabase (Inr nid) =
     Inr (\<lparr>storage = memoryStorage, nodeID = nid\<rparr>, \<lparr>data = Map.empty, nodeID_m = nid\<rparr>)"
  by (simp add: NewMemoryDatabase_def NewMemoryStorage_def NewDatabase_def memoryStorage_def
      MemoryStorage_GetNodeID_def)

lemma memory_read_after_write:
  "\<forall>s k v s'. Storage_Set (storage \<lparr>storage = memoryStorage, nodeID = n\<rparr>) s k v = (None, s') \<longrightarrow>
      fst (Storage_Get (storage \<lparr>storage = memoryStorage, nodeID = n\<rparr>) s' k) = Inr (Some v)"
  by (auto simp: memory_simps)

text \<open>
  What \<open>handleReceive\<close> leaves for a key that holds a value: with different timestamps
  the one with the smaller \<open>ModifiedAt\<close>, with equal timestamps the one whose identity
  has the larger string form (the stored one when the string forms are equal too).
\<close>

lemma handleReceive_keeps_older:
  assumes "data m (Key d) = Some ex" and "ModifiedAt ex \<noteq> ModifiedAt (Value_d d)"
  shows "data (snd (handleReceive \<lparr>storage = memoryStorage, nodeID = n\<rparr> m d)) (Key d) =
     Some (if ModifiedAt (Value_d d) <s ModifiedAt ex then Value_d d else ex)"
  using assms
  by (simp add: handleReceive_memory applyDelta_def resolve_def existingIsConflictWinner_def)

lemma handleReceive_tie_keeps_larger:
  assumes "data m (Key d) = Some ex" and "ModifiedAt ex = ModifiedAt (Value_d d)"
  shows "data (snd (handleReceive \<lparr>storage = memoryStorage, nodeID = n\<rparr> m d)) (Key d) =
     Some (if uuid_String (ModifiedBy ex) < uuid_String (ModifiedBy (Value_d d))
           then Value_d d else ex)"
  using assms
  by (simp add: handleReceive_memory applyDelta_def resolve_def existingIsConflictWinner_def)

text \<open>A Close message changes nothing and the loop takes the next message.\<close>

lemma close_is_no_op:
  "dbMessageLoop db clock i s (CloseMessage # rest) = dbMessageLoop db clock (Suc i) s rest"
  by (simp add: dbMessageLoop_turn_def)

section \<open>The claims\<close>

subsection \<open>C1: different timestamps\<close>

text \<open>
  C1 says that of a stored value and a delta with different \<open>ModifiedAt\<close> the one with
  the larger \<open>ModifiedAt\<close> is stored afterwards. The code writes the delta when
  \<open>existingIsConflictWinner\<close> holds, that is when the stored value is the newer one. The
  spec's scenario on the in-memory backend: \<^verbatim>\<open>Set("k", "v1")\<close> at time 200, then
  \<^verbatim>\<open>ReceiveRemote\<close> of a delta for \<open>''k''\<close> written at time 100 with content "v0", then
  \<^verbatim>\<open>Get("k")\<close>. Both writes report no error, the older delta has replaced the local
  write, and \<^verbatim>\<open>Get\<close> returns "v0".
\<close>

theorem older_delta_overwrites_local_write:
  "dbMessageLoop \<lparr>storage = memoryStorage, nodeID = [0,0,0,0,0,0,0,0,0,0,0,0,0,0,0,9]\<rparr>
      of_nat 200 \<lparr>data = Map.empty, nodeID_m = [0,0,0,0,0,0,0,0,0,0,0,0,0,0,0,9]\<rparr>
      [SetMessage ''k'' [118, 49],
       ReceiveMessage \<lparr>Key = ''k'', Value_d = \<lparr>Version = 1,
          ModifiedBy = [0,0,0,0,0,0,0,0,0,0,0,0,0,0,0,1], ModifiedAt = 100,
          Deleted = False, Content = [118, 48]\<rparr>\<rparr>,
       GetMessage ''k''] =
     ([ErrorReply None, ErrorReply None,
       GetReply \<lparr>Result = \<lparr>HasValue = True, Value_r = [118, 48]\<rparr>, Error = None\<rparr>],
      \<lparr>data = [''k'' \<mapsto> \<lparr>Version = 1,
          ModifiedBy = [0,0,0,0,0,0,0,0,0,0,0,0,0,0,0,1], ModifiedAt = 100,
          Deleted = False, Content = [118, 48]\<rparr>],
       nodeID_m = [0,0,0,0,0,0,0,0,0,0,0,0,0,0,0,9]\<rparr>)"
  by (simp add: loop_simps memory_simps existingIsConflictWinner_def word_sless_alt)

subsection \<open>C2: equal timestamps\<close>

text \<open>
  C2 says that of two values with equal \<open>ModifiedAt\<close> the one whose identity sorts
  smaller is stored afterwards, in either order of arrival. On the code, two deltas for
  \<open>''k''\<close> with \<open>ModifiedAt = 100\<close>, written by the identities ending in 01 and in 02:
  received as 01 then 02, and as 02 then 01, the store ends with the value of 02 both
  times, and the string form of 01 is the smaller one.
\<close>

theorem tie_keeps_larger_identity:
  "data (snd (dbMessageLoop
      \<lparr>storage = memoryStorage, nodeID = [0,0,0,0,0,0,0,0,0,0,0,0,0,0,0,9]\<rparr> of_nat 0
      \<lparr>data = Map.empty, nodeID_m = [0,0,0,0,0,0,0,0,0,0,0,0,0,0,0,9]\<rparr>
      [ReceiveMessage \<lparr>Key = ''k'', Value_d = \<lparr>Version = 1,
          ModifiedBy = [0,0,0,0,0,0,0,0,0,0,0,0,0,0,0,1], ModifiedAt = 100,
          Deleted = False, Content = [1]\<rparr>\<rparr>,
       ReceiveMessage \<lparr>Key = ''k'', Value_d = \<lparr>Version = 1,
          ModifiedBy = [0,0,0,0,0,0,0,0,0,0,0,0,0,0,0,2], ModifiedAt = 100,
          Deleted = False, Content = [2]\<rparr>\<rparr>])) ''k'' =
     Some \<lparr>Version = 1, ModifiedBy = [0,0,0,0,0,0,0,0,0,0,0,0,0,0,0,2], ModifiedAt = 100,
          Deleted = False, Content = [2]\<rparr> \<and>
   data (snd (dbMessageLoop
      \<lparr>storage = memoryStorage, nodeID = [0,0,0,0,0,0,0,0,0,0,0,0,0,0,0,9]\<rparr> of_nat 0
      \<lparr>data = Map.empty, nodeID_m = [0,0,0,0,0,0,0,0,0,0,0,0,0,0,0,9]\<rparr>
      [ReceiveMessage \<lparr>Key = ''k'', Value_d = \<lparr>Version = 1,
          ModifiedBy = [0,0,0,0,0,0,0,0,0,0,0,0,0,0,0,2], ModifiedAt = 100,
          Deleted = False, Content = [2]\<rparr>\<rparr>,
       ReceiveMessage \<lparr>Key = ''k'', Value_d = \<lparr>Version = 1,
          ModifiedBy = [0,0,0,0,0,0,0,0,0,0,0,0,0,0,0,1], ModifiedAt = 100,
          Deleted = False, Content = [1]\<rparr>\<rparr>])) ''k'' =
     Some \<lparr>Version = 1, ModifiedBy = [0,0,0,0,0,0,0,0,0,0,0,0,0,0,0,2], ModifiedAt = 100,
          Deleted = False, Content = [2]\<rparr> \<and>
   uuid_String [0,0,0,0,0,0,0,0,0,0,0,0,0,0,0,1] <
   uuid_String [0,0,0,0,0,0,0,0,0,0,0,0,0,0,0,2]"
  by (simp add: loop_simps memory_simps existingIsConflictWinner_def
      uuid_String_def encodeHex_def hexByte_def hexDigit_def)

subsection \<open>C3: the Close request\<close>

text \<open>
  C3 says that a Close request ends the processing loop, so that no request is served
  after it. On the code the \<^verbatim>\<open>break\<close> of the \<^verbatim>\<open>default\<close> case leaves the \<^verbatim>\<open>switch\<close> only:
  after a Close message the loop serves a \<^verbatim>\<open>Set\<close> and a \<^verbatim>\<open>Get\<close> as before (the replies
  are the \<^verbatim>\<open>Set\<close>'s nil error and the value just set).
\<close>

theorem loop_serves_requests_after_close:
  "dbMessageLoop \<lparr>storage = memoryStorage, nodeID = [0,0,0,0,0,0,0,0,0,0,0,0,0,0,0,9]\<rparr>
      of_nat 0 \<lparr>data = Map.empty, nodeID_m = [0,0,0,0,0,0,0,0,0,0,0,0,0,0,0,9]\<rparr>
      [CloseMessage, SetMessage ''test'' [5], GetMessage ''test''] =
     ([ErrorReply None,
       GetReply \<lparr>Result = \<lparr>HasValue = True, Value_r = [5]\<rparr>, Error = None\<rparr>],
      \<lparr>data = [''test'' \<mapsto> \<lparr>Version = 1,
          ModifiedBy = [0,0,0,0,0,0,0,0,0,0,0,0,0,0,0,9], ModifiedAt = 1,
          Deleted = False, Content = [5]\<rparr>],
       nodeID_m = [0,0,0,0,0,0,0,0,0,0,0,0,0,0,0,9]\<rparr>)"
  by (simp add: loop_simps memory_simps)

subsection \<open>C4: convergence of received deltas\<close>

text \<open>
  C4, as amended. On the in-memory backend and for every key: two runs of
  \<^verbatim>\<open>ReceiveRemote\<close> from the same store that deliver the same set of deltas, in any order
  and each delta any number of times, leave the same value for the key, provided that
  two different deltas of the set for that key never agree on both \<open>ModifiedAt\<close> and
  \<open>ModifiedBy\<close> (identities being 16 bytes long, as \<^verbatim>\<open>uuid.UUID\<close> is); and receiving a
  delta a second time right after the first leaves the store as the first reception
  left it, for every delta.
\<close>

theorem receive_converges:
  assumes "set xs = set ys"
    and "\<forall>d \<in> set xs. Key d = k \<longrightarrow> length (ModifiedBy (Value_d d)) = 16"
    and "\<forall>d \<in> set xs. \<forall>d' \<in> set xs.
        Key d = k \<and> Key d' = k \<and> ModifiedAt (Value_d d) = ModifiedAt (Value_d d') \<and>
        ModifiedBy (Value_d d) = ModifiedBy (Value_d d') \<longrightarrow> d = d'"
  shows "data (snd (dbMessageLoop \<lparr>storage = memoryStorage, nodeID = n\<rparr> clock i m
             (map ReceiveMessage xs))) k =
         data (snd (dbMessageLoop \<lparr>storage = memoryStorage, nodeID = n\<rparr> clock' j m
             (map ReceiveMessage ys))) k \<and>
         snd (dbMessageLoop \<lparr>storage = memoryStorage, nodeID = n\<rparr> clock i m
             [ReceiveMessage d, ReceiveMessage d]) =
         snd (dbMessageLoop \<lparr>storage = memoryStorage, nodeID = n\<rparr> clock i m
             [ReceiveMessage d])"
proof
  have "foldl applyDelta (data m) xs k = foldl applyDelta (data m) ys k"
    using assms by (rule receive_order_irrelevant)
  then show "data (snd (dbMessageLoop \<lparr>storage = memoryStorage, nodeID = n\<rparr> clock i m
             (map ReceiveMessage xs))) k =
         data (snd (dbMessageLoop \<lparr>storage = memoryStorage, nodeID = n\<rparr> clock' j m
             (map ReceiveMessage ys))) k"
    by (simp add: loop_receive_memory)
next
  have "dbMessageLoop \<lparr>storage = memoryStorage, nodeID = n\<rparr> clock i m
             (map ReceiveMessage [d, d]) =
        (map (\<lambda>d. ErrorReply None) [d, d], m\<lparr>data := foldl applyDelta (data m) [d, d]\<rparr>)"
    by (rule loop_receive_memory)
  moreover have "dbMessageLoop \<lparr>storage = memoryStorage, nodeID = n\<rparr> clock i m
             (map ReceiveMessage [d]) =
        (map (\<lambda>d. ErrorReply None) [d], m\<lparr>data := foldl applyDelta (data m) [d]\<rparr>)"
    by (rule loop_receive_memory)
  ultimately show "snd (dbMessageLoop \<lparr>storage = memoryStorage, nodeID = n\<rparr> clock i m
             [ReceiveMessage d, ReceiveMessage d]) =
         snd (dbMessageLoop \<lparr>storage = memoryStorage, nodeID = n\<rparr> clock i m
             [ReceiveMessage d])"
    by (simp add: applyDelta_idem)
qed

text \<open>
  The theorem at two deltas for the key \<open>''k''\<close> written at different times, delivered
  to one replica as A, B and to another as B, A, B.
\<close>

theorem receive_converges_witness:
  "data (snd (dbMessageLoop
      \<lparr>storage = memoryStorage, nodeID = [0,0,0,0,0,0,0,0,0,0,0,0,0,0,0,9]\<rparr>
      of_nat 0 \<lparr>data = Map.empty, nodeID_m = [0,0,0,0,0,0,0,0,0,0,0,0,0,0,0,9]\<rparr>
      (map ReceiveMessage
        [\<lparr>Key = ''k'', Value_d = \<lparr>Version = 1,
            ModifiedBy = [0,0,0,0,0,0,0,0,0,0,0,0,0,0,0,1], ModifiedAt = 100,
            Deleted = False, Content = [1]\<rparr>\<rparr>,
         \<lparr>Key = ''k'', Value_d = \<lparr>Version = 1,
            ModifiedBy = [0,0,0,0,0,0,0,0,0,0,0,0,0,0,0,2], ModifiedAt = 200,
            Deleted = False, Content = [2]\<rparr>\<rparr>]))) ''k'' =
   data (snd (dbMessageLoop
      \<lparr>storage = memoryStorage, nodeID = [0,0,0,0,0,0,0,0,0,0,0,0,0,0,0,9]\<rparr>
      of_nat 0 \<lparr>data = Map.empty, nodeID_m = [0,0,0,0,0,0,0,0,0,0,0,0,0,0,0,9]\<rparr>
      (map ReceiveMessage
        [\<lparr>Key = ''k'', Value_d = \<lparr>Version = 1,
            ModifiedBy = [0,0,0,0,0,0,0,0,0,0,0,0,0,0,0,2], ModifiedAt = 200,
            Deleted = False, Content = [2]\<rparr>\<rparr>,
         \<lparr>Key = ''k'', Value_d = \<lparr>Version = 1,
            ModifiedBy = [0,0,0,0,0,0,0,0,0,0,0,0,0,0,0,1], ModifiedAt = 100,
            Deleted = False, Content = [1]\<rparr>\<rparr>,
         \<lparr>Key = ''k'', Value_d = \<lparr>Version = 1,
            ModifiedBy = [0,0,0,0,0,0,0,0,0,0,0,0,0,0,0,2], ModifiedAt = 200,
            Deleted = False, Content = [2]\<rparr>\<rparr>]))) ''k''"
proof -
  let ?A = "\<lparr>Key = ''k'', Value_d = \<lparr>Version = 1,
      ModifiedBy = [0,0,0,0,0,0,0,0,0,0,0,0,0,0,0,1], ModifiedAt = 100,
      Deleted = False, Content = [1]\<rparr>\<rparr>"
  let ?B = "\<lparr>Key = ''k'', Value_d = \<lparr>Version = 1,
      ModifiedBy = [0,0,0,0,0,0,0,0,0,0,0,0,0,0,0,2], ModifiedAt = 200,
      Deleted = False, Content = [2]\<rparr>\<rparr>"
  have s: "set [?A, ?B] = set [?B, ?A, ?B]" by auto
  have w: "\<forall>d \<in> set [?A, ?B]. Key d = ''k'' \<longrightarrow> length (ModifiedBy (Value_d d)) = 16"
    by simp
  have d: "\<forall>d \<in> set [?A, ?B]. \<forall>d' \<in> set [?A, ?B].
      Key d = ''k'' \<and> Key d' = ''k'' \<and> ModifiedAt (Value_d d) = ModifiedAt (Value_d d') \<and>
      ModifiedBy (Value_d d) = ModifiedBy (Value_d d') \<longrightarrow> d = d'"
    by simp
  from receive_converges [OF s w d] show ?thesis by blast
qed

text \<open>
  C4 as stated fails: two deltas for \<open>''k''\<close> that one node wrote within the same second
  (same \<open>ModifiedAt\<close>, same \<open>ModifiedBy\<close>, contents 1 and 2). Neither replaces the other,
  so a replica keeps the one it received first, and the two orders end differently.
\<close>

theorem receive_order_counterexample:
  "data (snd (dbMessageLoop
      \<lparr>storage = memoryStorage, nodeID = [0,0,0,0,0,0,0,0,0,0,0,0,0,0,0,9]\<rparr> of_nat 0
      \<lparr>data = Map.empty, nodeID_m = [0,0,0,0,0,0,0,0,0,0,0,0,0,0,0,9]\<rparr>
      [ReceiveMessage \<lparr>Key = ''k'', Value_d = \<lparr>Version = 1,
          ModifiedBy = [0,0,0,0,0,0,0,0,0,0,0,0,0,0,0,1], ModifiedAt = 100,
          Deleted = False, Content = [1]\<rparr>\<rparr>,
       ReceiveMessage \<lparr>Key = ''k'', Value_d = \<lparr>Version = 2,
          ModifiedBy = [0,0,0,0,0,0,0,0,0,0,0,0,0,0,0,1], ModifiedAt = 100,
          Deleted = False, Content = [2]\<rparr>\<rparr>])) ''k'' \<noteq>
   data (snd (dbMessageLoop
      \<lparr>storage = memoryStorage, nodeID = [0,0,0,0,0,0,0,0,0,0,0,0,0,0,0,9]\<rparr> of_nat 0
      \<lparr>data = Map.empty, nodeID_m = [0,0,0,0,0,0,0,0,0,0,0,0,0,0,0,9]\<rparr>
      [ReceiveMessage \<lparr>Key = ''k'', Value_d = \<lparr>Version = 2,
          ModifiedBy = [0,0,0,0,0,0,0,0,0,0,0,0,0,0,0,1], ModifiedAt = 100,
          Deleted = False, Content = [2]\<rparr>\<rparr>,
       ReceiveMessage \<lparr>Key = ''k'', Value_d = \<lparr>Version = 1,
          ModifiedBy = [0,0,0,0,0,0,0,0,0,0,0,0,0,0,0,1], ModifiedAt = 100,
          Deleted = False, Content = [1]\<rparr>\<rparr>])) ''k''"
  by (simp add: dbMessageLoop_turn_def dbMessageLoop_receive_def handleReceive_def
      memoryStorage_def MemoryStorage_Get_def MemoryStorage_Set_def
      existingIsConflictWinner_def)


subsection \<open>C5: Set, then Get\<close>

text \<open>
  C5. For every backend that returns from \<^verbatim>\<open>Get\<close> what a successful \<^verbatim>\<open>Set\<close> last stored
  for the key (the contract of \<^verbatim>\<open>Storage.Set\<close>), every key and every payload: when
  \<^verbatim>\<open>Set(key, bytes)\<close> returns no error, a \<^verbatim>\<open>Get(key)\<close> that follows it at once returns
  \<open>HasValue = True\<close>, the value \<open>bytes\<close> and no error.
\<close>

theorem set_then_get:
  assumes contract: "\<forall>s k v s'. Storage_Set (storage db) s k v = (None, s') \<longrightarrow>
      fst (Storage_Get (storage db) s' k) = Inr (Some v)"
    and ok: "dbMessageLoop_set db s now key bs = (None, s')"
  shows "fst (dbMessageLoop_get db s' key) =
     \<lparr>Result = \<lparr>HasValue = True, Value_r = bs\<rparr>, Error = None\<rparr>"
proof -
  obtain r s1 where g: "Storage_Get (storage db) s key = (r, s1)"
    by (cases "Storage_Get (storage db) s key")
  show ?thesis
  proof (cases r)
    case (Inl err)
    with g ok show ?thesis by (simp add: dbMessageLoop_set_def newValue_cases)
  next
    case (Inr cur)
    let ?v = "\<lparr>Version = (case cur of None \<Rightarrow> 1 | Some v \<Rightarrow> Version v + 1),
                ModifiedBy = nodeID db, ModifiedAt = now, Deleted = False, Content = bs\<rparr>"
    from g Inr ok have "Storage_Set (storage db) s1 key ?v = (None, s')"
      by (simp add: dbMessageLoop_set_def newValue_cases)
    with contract have "fst (Storage_Get (storage db) s' key) = Inr (Some ?v)" by blast
    then show ?thesis
      by (cases "Storage_Get (storage db) s' key") (simp add: dbMessageLoop_get_def)
  qed
qed

text \<open>
  The theorem on the in-memory backend, at the test's \<^verbatim>\<open>Set("test", []byte{5})\<close> on an
  empty store at time 7: the \<^verbatim>\<open>Set\<close> returns no error, and \<^verbatim>\<open>Get\<close> on the store it leaves
  returns the byte 5.
\<close>

theorem set_then_get_witness:
  "dbMessageLoop_set \<lparr>storage = memoryStorage, nodeID = [0,0,0,0,0,0,0,0,0,0,0,0,0,0,0,9]\<rparr>
      \<lparr>data = Map.empty, nodeID_m = [0,0,0,0,0,0,0,0,0,0,0,0,0,0,0,9]\<rparr> 7 ''test'' [5] =
     (None,
      \<lparr>data = [''test'' \<mapsto> \<lparr>Version = 1, ModifiedBy = [0,0,0,0,0,0,0,0,0,0,0,0,0,0,0,9],
          ModifiedAt = 7, Deleted = False, Content = [5]\<rparr>],
       nodeID_m = [0,0,0,0,0,0,0,0,0,0,0,0,0,0,0,9]\<rparr>) \<and>
   fst (dbMessageLoop_get \<lparr>storage = memoryStorage, nodeID = [0,0,0,0,0,0,0,0,0,0,0,0,0,0,0,9]\<rparr>
      \<lparr>data = [''test'' \<mapsto> \<lparr>Version = 1, ModifiedBy = [0,0,0,0,0,0,0,0,0,0,0,0,0,0,0,9],
          ModifiedAt = 7, Deleted = False, Content = [5]\<rparr>],
       nodeID_m = [0,0,0,0,0,0,0,0,0,0,0,0,0,0,0,9]\<rparr> ''test'') =
     \<lparr>Result = \<lparr>HasValue = True, Value_r = [5]\<rparr>, Error = None\<rparr>"
proof -
  let ?db = "\<lparr>storage = memoryStorage, nodeID = [0,0,0,0,0,0,0,0,0,0,0,0,0,0,0,9]\<rparr>"
  let ?m0 = "\<lparr>data = Map.empty, nodeID_m = [0,0,0,0,0,0,0,0,0,0,0,0,0,0,0,9]\<rparr>"
  let ?m1 = "\<lparr>data = [''test'' \<mapsto> \<lparr>Version = 1, ModifiedBy = [0,0,0,0,0,0,0,0,0,0,0,0,0,0,0,9],
          ModifiedAt = 7, Deleted = False, Content = [5]\<rparr>],
       nodeID_m = [0,0,0,0,0,0,0,0,0,0,0,0,0,0,0,9]\<rparr>"
  have c: "\<forall>s k v s'. Storage_Set (storage ?db) s k v = (None, s') \<longrightarrow>
      fst (Storage_Get (storage ?db) s' k) = Inr (Some v)"
    by (rule memory_read_after_write)
  have ok: "dbMessageLoop_set ?db ?m0 7 ''test'' [5] = (None, ?m1)"
    by (simp add: loop_simps memory_simps)
  from ok set_then_get [OF c ok] show ?thesis by (rule conjI)
qed

subsection \<open>C6: Delete\<close>

text \<open>
  C6. On the in-memory backend, for every store and every key, present or not:
  \<^verbatim>\<open>Delete(key)\<close> returns no error; the key then holds a tombstone (\<open>Deleted = True\<close>,
  empty content) whose \<open>ModifiedBy\<close> is the node identity of the Database; and a
  \<^verbatim>\<open>Get(key)\<close> that follows at once returns \<open>HasValue = False\<close> and no error. (The
  comment on \<^verbatim>\<open>Delete\<close> says that it does nothing when the key does not exist; the code
  stores a tombstone of version 1 then.)
\<close>

theorem delete_stores_tombstone:
  "fst (dbMessageLoop_delete \<lparr>storage = memoryStorage, nodeID = n\<rparr> m now key) = None \<and>
   data (snd (dbMessageLoop_delete \<lparr>storage = memoryStorage, nodeID = n\<rparr> m now key)) key =
     Some \<lparr>Version = (case data m key of None \<Rightarrow> 1 | Some v \<Rightarrow> Version v + 1),
           ModifiedBy = n, ModifiedAt = now, Deleted = True, Content = []\<rparr> \<and>
   fst (dbMessageLoop_get \<lparr>storage = memoryStorage, nodeID = n\<rparr>
         (snd (dbMessageLoop_delete \<lparr>storage = memoryStorage, nodeID = n\<rparr> m now key)) key) =
     \<lparr>Result = \<lparr>HasValue = False, Value_r = []\<rparr>, Error = None\<rparr>"
  by (cases "data m key") (simp_all add: loop_simps memory_simps)

subsection \<open>C7: versions of local writes\<close>




subsection \<open>C8: Get of an absent or deleted key\<close>

text \<open>
  C8. Whatever the backend: when the read finds no value for the key, or finds a
  tombstone, \<^verbatim>\<open>Get\<close> returns \<open>HasValue = False\<close> with a nil error; and when the read
  fails, \<^verbatim>\<open>Get\<close> returns the backend's error as it is.
\<close>

theorem get_absent_or_tombstone:
  "(Storage_Get (storage db) s key = (Inr None, s1) \<longrightarrow>
      dbMessageLoop_get db s key =
        (\<lparr>Result = \<lparr>HasValue = False, Value_r = []\<rparr>, Error = None\<rparr>, s1)) \<and>
   (Storage_Get (storage db) s key = (Inr (Some v), s1) \<and> Deleted v \<longrightarrow>
      dbMessageLoop_get db s key =
        (\<lparr>Result = \<lparr>HasValue = False, Value_r = []\<rparr>, Error = None\<rparr>, s1)) \<and>
   (Storage_Get (storage db) s key = (Inl err, s1) \<longrightarrow>
      dbMessageLoop_get db s key =
        (\<lparr>Result = \<lparr>HasValue = False, Value_r = []\<rparr>, Error = Some err\<rparr>, s1))"
  by (simp add: dbMessageLoop_get_def)

text \<open>
  The theorem on the in-memory backend at an empty store and at a store holding a
  tombstone, and on a backend whose reads always fail (its state counts the calls of
  \<^verbatim>\<open>Set\<close>).
\<close>

theorem get_absent_or_tombstone_witness:
  "dbMessageLoop_get \<lparr>storage = memoryStorage, nodeID = [0,0,0,0,0,0,0,0,0,0,0,0,0,0,0,9]\<rparr>
      \<lparr>data = Map.empty, nodeID_m = [0,0,0,0,0,0,0,0,0,0,0,0,0,0,0,9]\<rparr> ''test'' =
     (\<lparr>Result = \<lparr>HasValue = False, Value_r = []\<rparr>, Error = None\<rparr>,
      \<lparr>data = Map.empty, nodeID_m = [0,0,0,0,0,0,0,0,0,0,0,0,0,0,0,9]\<rparr>) \<and>
   dbMessageLoop_get \<lparr>storage = memoryStorage, nodeID = [0,0,0,0,0,0,0,0,0,0,0,0,0,0,0,9]\<rparr>
      \<lparr>data = [''test'' \<mapsto> \<lparr>Version = 2, ModifiedBy = [0,0,0,0,0,0,0,0,0,0,0,0,0,0,0,9],
          ModifiedAt = 7, Deleted = True, Content = []\<rparr>],
       nodeID_m = [0,0,0,0,0,0,0,0,0,0,0,0,0,0,0,9]\<rparr> ''test'' =
     (\<lparr>Result = \<lparr>HasValue = False, Value_r = []\<rparr>, Error = None\<rparr>,
      \<lparr>data = [''test'' \<mapsto> \<lparr>Version = 2, ModifiedBy = [0,0,0,0,0,0,0,0,0,0,0,0,0,0,0,9],
          ModifiedAt = 7, Deleted = True, Content = []\<rparr>],
       nodeID_m = [0,0,0,0,0,0,0,0,0,0,0,0,0,0,0,9]\<rparr>) \<and>
   dbMessageLoop_get
      \<lparr>storage = \<lparr>Storage_Get = (\<lambda>s k. (Inl (Err ''read failed''), s)),
          Storage_Set = (\<lambda>s k v. (None, Suc s)), Storage_Delete = (\<lambda>s k. (None, s)),
          Storage_GetNodeID = (\<lambda>s. (Inr [0,0,0,0,0,0,0,0,0,0,0,0,0,0,0,9], s))\<rparr>,
       nodeID = [0,0,0,0,0,0,0,0,0,0,0,0,0,0,0,9]\<rparr> (0 :: nat) ''test'' =
     (\<lparr>Result = \<lparr>HasValue = False, Value_r = []\<rparr>, Error = Some (Err ''read failed'')\<rparr>, 0)"
proof -
  let ?db = "\<lparr>storage = memoryStorage, nodeID = [0,0,0,0,0,0,0,0,0,0,0,0,0,0,0,9]\<rparr>"
  let ?m0 = "\<lparr>data = Map.empty, nodeID_m = [0,0,0,0,0,0,0,0,0,0,0,0,0,0,0,9]\<rparr>"
  let ?t = "\<lparr>Version = 2, ModifiedBy = [0,0,0,0,0,0,0,0,0,0,0,0,0,0,0,9],
          ModifiedAt = 7, Deleted = True, Content = []\<rparr>"
  let ?m1 = "\<lparr>data = [''test'' \<mapsto> ?t], nodeID_m = [0,0,0,0,0,0,0,0,0,0,0,0,0,0,0,9]\<rparr>"
  let ?fdb = "\<lparr>storage = \<lparr>Storage_Get = (\<lambda>s k. (Inl (Err ''read failed''), s)),
          Storage_Set = (\<lambda>s k v. (None, Suc s)), Storage_Delete = (\<lambda>s k. (None, s)),
          Storage_GetNodeID = (\<lambda>s. (Inr [0,0,0,0,0,0,0,0,0,0,0,0,0,0,0,9], s))\<rparr>,
       nodeID = [0,0,0,0,0,0,0,0,0,0,0,0,0,0,0,9]\<rparr>"
  have g0: "Storage_Get (storage ?db) ?m0 ''test'' = (Inr None, ?m0)"
    by (simp add: memory_simps)
  have g1: "Storage_Get (storage ?db) ?m1 ''test'' = (Inr (Some ?t), ?m1) \<and> Deleted ?t"
    by (simp add: memory_simps)
  have g2: "Storage_Get (storage ?fdb) (0 :: nat) ''test'' = (Inl (Err ''read failed''), 0)"
    by simp
  from g0 get_absent_or_tombstone [of ?db ?m0 "''test''" ?m0]
  have a: "dbMessageLoop_get ?db ?m0 ''test'' =
      (\<lparr>Result = \<lparr>HasValue = False, Value_r = []\<rparr>, Error = None\<rparr>, ?m0)"
    by blast
  from g1 get_absent_or_tombstone [of ?db ?m1 "''test''" ?m1 ?t]
  have b: "dbMessageLoop_get ?db ?m1 ''test'' =
      (\<lparr>Result = \<lparr>HasValue = False, Value_r = []\<rparr>, Error = None\<rparr>, ?m1)"
    by blast
  from g2 get_absent_or_tombstone [of ?fdb 0 "''test''" 0 _ "Err ''read failed''"]
  have c: "dbMessageLoop_get ?fdb 0 ''test'' =
      (\<lparr>Result = \<lparr>HasValue = False, Value_r = []\<rparr>, Error = Some (Err ''read failed'')\<rparr>, 0)"
    by blast
  from a b c show ?thesis by blast
qed

subsection \<open>C9: a failed read inside Set or Delete\<close>

text \<open>
  C9. Whatever the backend: when the read that \<^verbatim>\<open>Set\<close> or \<^verbatim>\<open>Delete\<close> makes to derive the
  new version fails, the operation returns that error and the backend is left in the
  state in which the failed read left it. \<^verbatim>\<open>Storage.Set\<close> is not called: the outcome is
  the same whatever function stands for the backend's \<^verbatim>\<open>Set\<close>.
\<close>

theorem failed_read_stops_write:
  assumes "Storage_Get (storage db) s key = (Inl err, s1)"
  shows "dbMessageLoop_set db s now key bs = (Some err, s1) \<and>
         dbMessageLoop_delete db s now key = (Some err, s1) \<and>
         (\<forall>f. dbMessageLoop_set (db\<lparr>storage := (storage db)\<lparr>Storage_Set := f\<rparr>\<rparr>) s now key bs =
                (Some err, s1) \<and>
              dbMessageLoop_delete (db\<lparr>storage := (storage db)\<lparr>Storage_Set := f\<rparr>\<rparr>) s now key =
                (Some err, s1))"
  using assms by (simp add: dbMessageLoop_set_def dbMessageLoop_delete_def newValue_def)

text \<open>
  The theorem on a backend whose reads always fail and whose state counts the calls of
  \<^verbatim>\<open>Set\<close>: the count is still 0 after \<^verbatim>\<open>Set\<close> and after \<^verbatim>\<open>Delete\<close>.
\<close>

theorem failed_read_stops_write_witness:
  "dbMessageLoop_set
      \<lparr>storage = \<lparr>Storage_Get = (\<lambda>s k. (Inl (Err ''read failed''), s)),
          Storage_Set = (\<lambda>s k v. (None, Suc s)), Storage_Delete = (\<lambda>s k. (None, s)),
          Storage_GetNodeID = (\<lambda>s. (Inr [0,0,0,0,0,0,0,0,0,0,0,0,0,0,0,9], s))\<rparr>,
       nodeID = [0,0,0,0,0,0,0,0,0,0,0,0,0,0,0,9]\<rparr> (0 :: nat) 7 ''test'' [5] =
     (Some (Err ''read failed''), 0) \<and>
   dbMessageLoop_delete
      \<lparr>storage = \<lparr>Storage_Get = (\<lambda>s k. (Inl (Err ''read failed''), s)),
          Storage_Set = (\<lambda>s k v. (None, Suc s)), Storage_Delete = (\<lambda>s k. (None, s)),
          Storage_GetNodeID = (\<lambda>s. (Inr [0,0,0,0,0,0,0,0,0,0,0,0,0,0,0,9], s))\<rparr>,
       nodeID = [0,0,0,0,0,0,0,0,0,0,0,0,0,0,0,9]\<rparr> (0 :: nat) 7 ''test'' =
     (Some (Err ''read failed''), 0)"
proof -
  let ?fdb = "\<lparr>storage = \<lparr>Storage_Get = (\<lambda>s k. (Inl (Err ''read failed''), s)),
          Storage_Set = (\<lambda>s k v. (None, Suc s)), Storage_Delete = (\<lambda>s k. (None, s)),
          Storage_GetNodeID = (\<lambda>s. (Inr [0,0,0,0,0,0,0,0,0,0,0,0,0,0,0,9], s))\<rparr>,
       nodeID = [0,0,0,0,0,0,0,0,0,0,0,0,0,0,0,9]\<rparr>"
  have g: "Storage_Get (storage ?fdb) (0 :: nat) ''test'' = (Inl (Err ''read failed''), 0)"
    by simp
  from failed_read_stops_write [OF g] show ?thesis by blast
qed


subsection \<open>C10: Get does not write\<close>

text \<open>
  C10. \<^verbatim>\<open>Get\<close> leaves the backend in the state in which its one call of
  \<^verbatim>\<open>Storage.Get\<close> leaves it; on the in-memory backend that is the store as it was
  before, for every store and key.
\<close>

theorem get_leaves_store:
  "snd (dbMessageLoop_get db s key) = snd (Storage_Get (storage db) s key) \<and>
   snd (dbMessageLoop_get \<lparr>storage = memoryStorage, nodeID = n\<rparr> m key) = m"
proof
  show "snd (dbMessageLoop_get db s key) = snd (Storage_Get (storage db) s key)"
    by (simp add: dbMessageLoop_get_def split: prod.splits sum.splits option.splits)
  show "snd (dbMessageLoop_get \<lparr>storage = memoryStorage, nodeID = n\<rparr> m key) = m"
    by (simp add: dbMessageLoop_get_def memory_simps split: option.splits)
qed

end
